theory Spec2Isabelle
  imports Complex_Main
begin

section \<open>Shared helper functions: \<open>shared/utils/helpers.py\<close>\<close>

text \<open>
  The Python exceptions that the modelled functions can raise. A function that can raise
  returns \<open>py_error + 'a\<close>, with \<open>Inl\<close> for the exception.
\<close>

datatype py_error = ZeroDivisionError | OverflowError | IndexError

subsection \<open>Python list slicing\<close>

text \<open>
  \<open>items[start:end]\<close> on a list, with integer bounds and step 1. Python first adjusts
  each bound against the length \<open>n\<close>: a negative bound counts from the end and is clipped
  at 0, a bound beyond the length is clipped at \<open>n\<close>. The result holds the elements from
  the adjusted start up to the adjusted end, and is empty when the end is not after the
  start. Slicing never raises.
\<close>

definition py_adjust_index :: "int \<Rightarrow> int \<Rightarrow> int" where
  "py_adjust_index n i =
     (if i < 0 then (if i + n < 0 then 0 else i + n)
      else if n \<le> i then n
      else i)"

definition py_slice :: "'a list \<Rightarrow> int \<Rightarrow> int \<Rightarrow> 'a list" where
  "py_slice xs start end =
     (let n = int (length xs);
          s = py_adjust_index n start;
          e = py_adjust_index n end
      in if s < e then take (nat (e - s)) (drop (nat s) xs) else [])"

subsection \<open>Paginator\<close>

text \<open>
  The object built by \<open>Paginator.__init__\<close>: one field per attribute the constructor
  assigns. Python's integers are unbounded, so the numeric fields are \<open>int\<close>.
\<close>

record 'a Paginator =
  all_items :: "'a list"
  page :: int
  page_size :: int
  total :: int
  total_pages :: int
  items :: "'a list"

text \<open>
  \<open>Paginator.__init__(self, items, page, page_size)\<close>. The arguments are written
  \<open>xs\<close>, \<open>pg\<close> and \<open>sz\<close>, since \<open>items\<close>, \<open>page\<close> and \<open>page_size\<close> name the fields.
  The floor division \<open>//\<close> raises \<open>ZeroDivisionError\<close> when \<open>page_size\<close> is 0, before
  any slice is computed; for every other divisor \<open>div\<close> on \<open>int\<close> rounds towards minus
  infinity as \<open>//\<close> does.
\<close>

definition Paginator_init :: "'a list \<Rightarrow> int \<Rightarrow> int \<Rightarrow> py_error + 'a Paginator" where
  "Paginator_init xs pg sz =
     (if sz = 0 then Inl ZeroDivisionError
      else
        let tot = int (length xs);
            start = (pg - 1) * sz;
            end = start + sz
        in Inr \<lparr> all_items = xs,
                 page = pg,
                 page_size = sz,
                 total = tot,
                 total_pages = (tot + sz - 1) div sz,
                 items = py_slice xs start end \<rparr>)"

definition has_next :: "'a Paginator \<Rightarrow> bool" where
  "has_next self = (page self < total_pages self)"

definition has_prev :: "'a Paginator \<Rightarrow> bool" where
  "has_prev self = (page self > 1)"

subsection \<open>Random strings and API keys\<close>

text \<open>
  The secure random source is a parameter of the model: an infinite tape of draws, read
  from position 0 and handed on shortened. \<open>randbelow n\<close> stands for the library's
  \<open>secrets.randbelow\<close>, whose contract is a result in \<open>range(n)\<close>: the next draw is
  reduced into that range.
\<close>

type_synonym rng = "nat \<Rightarrow> nat"

definition randbelow :: "nat \<Rightarrow> rng \<Rightarrow> nat \<times> rng" where
  "randbelow n g = (g 0 mod n, \<lambda>i. g (Suc i))"

text \<open>
  \<open>secrets.choice(seq)\<close> returns \<open>seq[randbelow(len(seq))]\<close> and raises \<open>IndexError\<close>
  on an empty sequence.
\<close>

definition secrets_choice :: "'a list \<Rightarrow> rng \<Rightarrow> py_error + ('a \<times> rng)" where
  "secrets_choice seq g =
     (if seq = [] then Inl IndexError
      else let (i, g') = randbelow (length seq) g in Inr (seq ! i, g'))"

definition ascii_letters :: string where
  "ascii_letters = ''abcdefghijklmnopqrstuvwxyzABCDEFGHIJKLMNOPQRSTUVWXYZ''"

definition digits :: string where
  "digits = ''0123456789''"

text \<open>
  The generator expression \<open>secrets.choice(alphabet) for _ in range(length)\<close> joined into
  a string: one choice per iteration, in order, each reading the source where the
  previous one left it.
\<close>

fun join_choices :: "string \<Rightarrow> nat \<Rightarrow> rng \<Rightarrow> py_error + (string \<times> rng)" where
  "join_choices alphabet 0 g = Inr ([], g)"
| "join_choices alphabet (Suc n) g =
     (case secrets_choice alphabet g of
        Inl e \<Rightarrow> Inl e
      | Inr (c, g') \<Rightarrow>
          (case join_choices alphabet n g' of
             Inl e \<Rightarrow> Inl e
           | Inr (cs, g'') \<Rightarrow> Inr (c # cs, g'')))"

text \<open>
  \<open>generate_random_string(length)\<close>; the argument is written \<open>len\<close>. \<open>range(length)\<close>
  is empty for a negative \<open>length\<close>, which \<open>nat\<close> gives as 0 iterations.
\<close>

definition generate_random_string :: "int \<Rightarrow> rng \<Rightarrow> py_error + (string \<times> rng)" where
  "generate_random_string len g =
     (let alphabet = ascii_letters @ digits
      in join_choices alphabet (nat len) g)"

definition generate_api_key :: "rng \<Rightarrow> py_error + (string \<times> rng)" where
  "generate_api_key g =
     (case generate_random_string 64 g of
        Inl e \<Rightarrow> Inl e
      | Inr (random_part, g') \<Rightarrow> Inr (''aimpk_'' @ random_part, g'))"

text \<open>
  What "an ASCII letter or digit" means, stated on the character code and independently
  of the alphabet that the code builds.
\<close>

definition is_ascii_alnum :: "char \<Rightarrow> bool" where
  "is_ascii_alnum c =
     (let k = (of_char c :: nat)
      in (48 \<le> k \<and> k \<le> 57) \<or> (65 \<le> k \<and> k \<le> 90) \<or> (97 \<le> k \<and> k \<le> 122))"

subsection \<open>Expiry times\<close>

text \<open>
  A naive \<open>datetime\<close> is the number of microseconds since 0001-01-01T00:00:00, the first
  instant the type can hold; the last one is the final microsecond of 9999-12-31, whose
  day has ordinal 3652059. A \<open>timedelta\<close> is a number of microseconds.
\<close>

type_synonym datetime = int

type_synonym timedelta = int

definition US_PER_HOUR :: int where
  "US_PER_HOUR = 3600000000"

definition US_PER_DAY :: int where
  "US_PER_DAY = 86400000000"

definition MAX_DELTA_DAYS :: int where
  "MAX_DELTA_DAYS = 999999999"

definition MAXORDINAL :: int where
  "MAXORDINAL = 3652059"

text \<open>
  \<open>timedelta(days=d, hours=h)\<close>: the library normalises the sum to whole days plus a
  remainder and raises \<open>OverflowError\<close> when the day count exceeds 999999999 in magnitude.
\<close>

definition timedelta :: "int \<Rightarrow> int \<Rightarrow> py_error + timedelta" where
  "timedelta d h =
     (let us = d * US_PER_DAY + h * US_PER_HOUR
      in if \<bar>us div US_PER_DAY\<bar> > MAX_DELTA_DAYS then Inl OverflowError else Inr us)"

text \<open>
  \<open>now + delta\<close> on a \<open>datetime\<close>: \<open>OverflowError\<close> when the result leaves the years
  1 to 9999.
\<close>

definition datetime_add :: "datetime \<Rightarrow> timedelta \<Rightarrow> py_error + datetime" where
  "datetime_add t delta =
     (let r = t + delta
      in if 0 \<le> r \<and> r < MAXORDINAL * US_PER_DAY then Inr r else Inl OverflowError)"

text \<open>
  Python's truth value of an \<open>Optional[int]\<close>, as \<open>if days:\<close> tests it: \<open>None\<close> and 0
  are false, every other integer is true.
\<close>

fun truthy :: "int option \<Rightarrow> bool" where
  "truthy None = False"
| "truthy (Some n) = (n \<noteq> 0)"

text \<open>
  \<open>get_expiry_time(days, hours)\<close>. The clock reading \<open>datetime.utcnow()\<close> is the
  parameter \<open>now\<close>; an argument that is not passed is \<open>None\<close>.
\<close>

definition get_expiry_time :: "datetime \<Rightarrow> int option \<Rightarrow> int option \<Rightarrow> py_error + datetime" where
  "get_expiry_time now days hours =
     (if truthy days then
        (case timedelta (the days) 0 of Inl e \<Rightarrow> Inl e | Inr delta \<Rightarrow> datetime_add now delta)
      else if truthy hours then
        (case timedelta 0 (the hours) of Inl e \<Rightarrow> Inl e | Inr delta \<Rightarrow> datetime_add now delta)
      else
        (case timedelta 30 0 of Inl e \<Rightarrow> Inl e | Inr delta \<Rightarrow> datetime_add now delta))"

subsection \<open>Slicing lemmas\<close>

lemma py_slice_nonneg:
  assumes "0 \<le> s" and "0 \<le> k"
  shows "py_slice xs s (s + k) = take (nat k) (drop (nat s) xs)"
proof (cases "int (length xs) \<le> s")
  case True
  then show ?thesis
    using assms by (simp add: py_slice_def py_adjust_index_def Let_def)
next
  case False
  then have lt: "s < int (length xs)" by simp
  show ?thesis
  proof (cases "int (length xs) \<le> s + k")
    case True
    then have "length (drop (nat s) xs) \<le> nat k"
      using assms by simp
    then show ?thesis
      using assms lt True by (simp add: py_slice_def py_adjust_index_def Let_def)
  next
    case False
    then show ?thesis
      using assms lt by (simp add: py_slice_def py_adjust_index_def Let_def)
  qed
qed

lemma Paginator_init_Inr:
  "sz \<noteq> 0 \<Longrightarrow> \<exists>p. Paginator_init xs pg sz = Inr p"
  by (simp add: Paginator_init_def Let_def)

lemma items_Paginator_init:
  assumes "1 \<le> pg" and "1 \<le> sz" and "Paginator_init xs pg sz = Inr p"
  shows "items p = take (nat sz) (drop (nat ((pg - 1) * sz)) xs)"
proof -
  have "items p = py_slice xs ((pg - 1) * sz) ((pg - 1) * sz + sz)"
    using assms by (auto simp: Paginator_init_def Let_def)
  moreover have "0 \<le> (pg - 1) * sz"
    using assms by simp
  ultimately show ?thesis
    using assms py_slice_nonneg [of "(pg - 1) * sz" sz xs] by simp
qed

subsection \<open>Page-count arithmetic\<close>

lemma total_pages_bounds:
  fixes n sz :: int
  assumes "1 \<le> sz" 
  shows "((n + sz - 1) div sz - 1) * sz < n \<and> n \<le> ((n + sz - 1) div sz) * sz"
proof -
  define q where "q = (n + sz - 1) div sz"
  define r where "r = (n + sz - 1) mod sz"
  have eq: "n + sz - 1 = q * sz + r" by (simp add: q_def r_def)
  have r: "0 \<le> r" "r < sz" using assms by (simp_all add: r_def)
  have "(q - 1) * sz = q * sz - sz" by (simp add: algebra_simps)
  then show ?thesis unfolding q_def[symmetric] using eq r by linarith
qed

lemma total_pages_nonneg:
  fixes n sz :: int
  assumes "1 \<le> sz" "0 \<le> n"
  shows "0 \<le> (n + sz - 1) div sz"
  using assms by (simp add: pos_imp_zdiv_nonneg_iff)

lemma ceil_div:
  fixes n sz :: int
  assumes "1 \<le> sz"
  shows "(n + sz - 1) div sz = \<lceil>real_of_int n / real_of_int sz\<rceil>"
proof -
  define q where "q = (n + sz - 1) div sz"
  have b: "(q - 1) * sz < n" "n \<le> q * sz"
    using total_pages_bounds [OF assms, of n] by (simp_all add: q_def)
  have pos: "0 < real_of_int sz" using assms by simp
  have "real_of_int ((q - 1) * sz) < real_of_int n" using b(1) by linarith
  then have "real_of_int (q - 1) * real_of_int sz < real_of_int n" by simp
  then have lo: "real_of_int q - 1 < real_of_int n / real_of_int sz"
    using pos by (simp add: pos_less_divide_eq)
  have "real_of_int n \<le> real_of_int (q * sz)" using b(2) by linarith
  then have "real_of_int n \<le> real_of_int q * real_of_int sz" by simp
  then have hi: "real_of_int n / real_of_int sz \<le> real_of_int q"
    using pos by (simp add: pos_divide_le_eq)
  have "\<lceil>real_of_int n / real_of_int sz\<rceil> = q"
    using lo hi by (simp add: ceiling_eq_iff)
  then show ?thesis by (simp add: q_def)
qed

lemma concat_pages_take:
  assumes "1 \<le> sz"
  shows "concat (map (\<lambda>pg. py_slice xs ((pg - 1) * sz) ((pg - 1) * sz + sz)) [1..int k])
           = take (k * nat sz) xs"
proof (induction k)
  case 0
  show ?case by simp
next
  case (Suc k)
  have up: "[1..int (Suc k)] = [1..int k] @ [int k + 1]"
    using upto_rec2 [of 1 "int (Suc k)"] by (simp add: add.commute)
  have "0 \<le> int k * sz" using assms by simp
  then have sl: "py_slice xs (int k * sz) (int k * sz + sz) = take (nat sz) (drop (nat (int k * sz)) xs)"
    using assms py_slice_nonneg [of "int k * sz" sz xs] by simp
  have nk: "nat (int k * sz) = k * nat sz"
    using assms by (simp add: nat_mult_distrib)
  have "concat (map (\<lambda>pg. py_slice xs ((pg - 1) * sz) ((pg - 1) * sz + sz)) [1..int (Suc k)])
          = take (k * nat sz) xs @ take (nat sz) (drop (k * nat sz) xs)"
    unfolding up using Suc.IH sl nk by simp
  also have "\<dots> = take (k * nat sz + nat sz) xs"
    by (simp add: take_add)
  finally show ?case by (simp add: add.commute)
qed

subsection \<open>Claims about the Paginator\<close>

text \<open>
  Claim C1. For every list, every \<open>page \<ge> 1\<close> and every \<open>page_size \<ge> 1\<close> the constructor
  succeeds and \<open>items\<close> is the part of the input from position
  \<open>start = (page - 1) * page_size\<close> up to, not including, \<open>start + page_size\<close>, clipped to
  the input: a start at or beyond the length of the input gives the empty list, not an error.
\<close>

theorem Paginator_items_slice:
  assumes "1 \<le> pg" and "1 \<le> sz"
  shows "\<exists>p. Paginator_init xs pg sz = Inr p \<and>
           items p = take (nat sz) (drop (nat ((pg - 1) * sz)) xs) \<and>
           (int (length xs) \<le> (pg - 1) * sz \<longrightarrow> items p = [])"
proof -
  obtain p where p: "Paginator_init xs pg sz = Inr p"
    using assms Paginator_init_Inr [of sz xs pg] by auto
  have it: "items p = take (nat sz) (drop (nat ((pg - 1) * sz)) xs)"
    using assms p by (rule items_Paginator_init)
  have "int (length xs) \<le> (pg - 1) * sz \<longrightarrow> items p = []"
    unfolding it by auto
  with p it show ?thesis by blast
qed

theorem Paginator_items_slice_witness:
  "(1::int) \<le> 2 \<and> (1::int) \<le> 3 \<and>
   (\<exists>p. Paginator_init [1, 2, 3, 4, 5, 6, 7, 8, 9, 10 :: nat] 2 3 = Inr p \<and>
        items p = [4, 5, 6])"
proof -
  have h1: "(1::int) \<le> 2" and h2: "(1::int) \<le> 3" by simp_all
  show ?thesis
    using Paginator_items_slice [OF h1 h2, of "[1, 2, 3, 4, 5, 6, 7, 8, 9, 10 :: nat]"]
    by auto
qed

text \<open>
  Claim C2. For every list of length \<open>N\<close> and every \<open>page_size \<ge> 1\<close> the constructed
  Paginator has \<open>total = N\<close> and \<open>total_pages = \<lceil>N / page_size\<rceil>\<close>, the ceiling of the
  exact quotient; in particular \<open>total_pages = 0\<close> when \<open>N = 0\<close>.
\<close>

theorem Paginator_total_pages_ceiling:
  assumes "1 \<le> sz"
  shows "\<exists>p. Paginator_init xs pg sz = Inr p \<and> total p = int (length xs) \<and>
           total_pages p = \<lceil>real (length xs) / real_of_int sz\<rceil> \<and>
           (length xs = 0 \<longrightarrow> total_pages p = 0)"
proof -
  have nz: "sz \<noteq> 0" using assms by simp
  have c: "(int (length xs) + sz - 1) div sz = \<lceil>real (length xs) / real_of_int sz\<rceil>"
    using ceil_div [OF assms, of "int (length xs)"] by simp
  show ?thesis using nz c by (simp add: Paginator_init_def Let_def)
qed

theorem Paginator_total_pages_ceiling_witness:
  "(1::int) \<le> 3 \<and>
   (\<exists>p. Paginator_init [1, 2, 3, 4, 5, 6, 7, 8, 9, 10 :: nat] 2 3 = Inr p \<and>
        total p = 10 \<and> total_pages p = 4 \<and> \<lceil>10 / (3::real)\<rceil> = 4)"
proof -
  have h: "(1::int) \<le> 3" by simp
  have tp: "\<And>p. Paginator_init [1, 2, 3, 4, 5, 6, 7, 8, 9, 10 :: nat] 2 3 = Inr p
              \<Longrightarrow> total_pages p = 4"
    by (auto simp: Paginator_init_def Let_def)
  show ?thesis
    using Paginator_total_pages_ceiling [OF h, of "[1, 2, 3, 4, 5, 6, 7, 8, 9, 10 :: nat]" 2] tp
    by auto
qed

text \<open>
  Claim C4, as stated, says that on an empty input every \<open>page \<ge> 1\<close> has \<open>has_prev\<close>
  false. It fails at page 2: \<open>has_prev\<close> only compares the page number with 1.
\<close>

theorem Paginator_empty_has_prev_counterexample:
  "Paginator_init ([]::nat list) 2 1 =
     Inr \<lparr>all_items = [], page = 2, page_size = 1, total = 0, total_pages = 0, items = []\<rparr> \<and>
   has_prev \<lparr>all_items = ([]::nat list), page = 2, page_size = 1, total = 0, total_pages = 0,
     items = []\<rparr>"
  by (simp add: Paginator_init_def Let_def has_prev_def py_slice_def)

text \<open>
  Claim C4, amended. For the empty input, every \<open>page \<ge> 1\<close> and every \<open>page_size \<ge> 1\<close>
  the constructed Paginator has \<open>total_pages = 0\<close>, \<open>items\<close> empty and \<open>has_next\<close> false,
  and \<open>has_prev\<close> is true exactly when \<open>page > 1\<close> (so it is false for page 1).
\<close>

theorem Paginator_empty_fields:
  assumes "1 \<le> pg" and "1 \<le> sz"
  shows "\<exists>p. Paginator_init [] pg sz = Inr p \<and> total_pages p = 0 \<and> items p = [] \<and>
           \<not> has_next p \<and> (has_prev p \<longleftrightarrow> 1 < pg)"
  using assms
  by (simp add: Paginator_init_def Let_def py_slice_def has_next_def has_prev_def
      div_pos_pos_trivial)

theorem Paginator_empty_fields_witness:
  "(1::int) \<le> 1 \<and> (1::int) \<le> 20 \<and>
   (\<exists>p. Paginator_init ([]::nat list) 1 20 = Inr p \<and> total_pages p = 0 \<and> items p = [] \<and>
        \<not> has_next p \<and> \<not> has_prev p)"
proof -
  have h1: "(1::int) \<le> 1" and h2: "(1::int) \<le> 20" by simp_all
  show ?thesis
    using Paginator_empty_fields [OF h1 h2, where ?'a = nat] by auto
qed

text \<open>
  Claim C5. For every non-empty list of length \<open>N\<close> and every \<open>page_size \<ge> 1\<close>: a page
  from 1 up to but not including \<open>total_pages\<close> holds exactly \<open>page_size\<close> items, and the
  last page, \<open>page = total_pages\<close>, holds \<open>N - (total_pages - 1) * page_size\<close> items.
\<close>

theorem Paginator_items_length:
  assumes "xs \<noteq> []" and "1 \<le> sz"
  shows "\<exists>p. Paginator_init xs pg sz = Inr p \<and>
           (1 \<le> pg \<and> pg < total_pages p \<longrightarrow> int (length (items p)) = sz) \<and>
           (pg = total_pages p \<longrightarrow>
              int (length (items p)) = int (length xs) - (total_pages p - 1) * sz)"
proof -
  let ?n = "int (length xs)"
  obtain p where p: "Paginator_init xs pg sz = Inr p"
    using assms Paginator_init_Inr [of sz xs pg] by auto
  have tp: "total_pages p = (?n + sz - 1) div sz"
    using assms(2) p by (auto simp: Paginator_init_def Let_def)
  have lo: "(total_pages p - 1) * sz < ?n" and hi: "?n \<le> total_pages p * sz"
    unfolding tp using total_pages_bounds [OF assms(2), of ?n] by simp_all
  have tp1: "1 \<le> total_pages p"
  proof (rule ccontr)
    assume "\<not> 1 \<le> total_pages p"
    then have "total_pages p \<le> 0" by simp
    then have "total_pages p * sz \<le> 0 * sz"
      using assms(2) by (intro mult_right_mono) simp_all
    moreover have "0 < ?n" using assms(1) by simp
    ultimately show False using hi by linarith
  qed
  have inner: "int (length (items p)) = sz" if "1 \<le> pg" and "pg < total_pages p"
  proof -
    have "pg \<le> total_pages p - 1" using that by simp
    then have "pg * sz \<le> (total_pages p - 1) * sz"
      using assms(2) by (intro mult_right_mono) simp_all
    then have "pg * sz < ?n" using lo by linarith
    moreover have "pg * sz = (pg - 1) * sz + sz" by (simp add: algebra_simps)
    moreover have "0 \<le> (pg - 1) * sz" using that assms(2) by simp
    ultimately show ?thesis
      using items_Paginator_init [OF that(1) assms(2) p] assms(2) by simp
  qed
  have last: "int (length (items p)) = ?n - (total_pages p - 1) * sz" if "pg = total_pages p"
  proof -
    have pg1: "1 \<le> pg" using that tp1 by simp
    have "0 \<le> (pg - 1) * sz" using pg1 assms(2) by simp
    moreover have "(pg - 1) * sz < ?n" using lo that by simp
    moreover have "?n \<le> (pg - 1) * sz + sz" using hi that by (simp add: algebra_simps)
    ultimately show ?thesis
      using items_Paginator_init [OF pg1 assms(2) p] assms(2) that by simp
  qed
  show ?thesis using p inner last by blast
qed

theorem Paginator_items_length_witness:
  "[1, 2, 3, 4, 5, 6, 7, 8, 9, 10 :: nat] \<noteq> [] \<and> (1::int) \<le> 3 \<and>
   (\<exists>p. Paginator_init [1, 2, 3, 4, 5, 6, 7, 8, 9, 10 :: nat] 4 3 = Inr p \<and>
        total_pages p = 4 \<and> int (length (items p)) = 10 - (4 - 1) * 3)"
proof -
  have h1: "[1, 2, 3, 4, 5, 6, 7, 8, 9, 10 :: nat] \<noteq> []" and h2: "(1::int) \<le> 3"
    by simp_all
  have tp: "\<And>p. Paginator_init [1, 2, 3, 4, 5, 6, 7, 8, 9, 10 :: nat] 4 3 = Inr p
              \<Longrightarrow> total_pages p = 4"
    by (auto simp: Paginator_init_def Let_def)
  show ?thesis
    using Paginator_items_length [OF h1 h2, of 4] tp by auto
qed

text \<open>
  Claim C6. For every list, every \<open>page_size \<ge> 1\<close> and every \<open>page > total_pages\<close> the
  constructed Paginator has \<open>items\<close> empty and \<open>has_next\<close> false.
\<close>

theorem Paginator_beyond_last_page:
  assumes "1 \<le> sz"
  shows "\<exists>p. Paginator_init xs pg sz = Inr p \<and>
           (total_pages p < pg \<longrightarrow> items p = [] \<and> \<not> has_next p)"
proof -
  let ?n = "int (length xs)"
  obtain p where p: "Paginator_init xs pg sz = Inr p"
    using assms Paginator_init_Inr [of sz xs pg] by auto
  have tp: "total_pages p = (?n + sz - 1) div sz" and pgp: "page p = pg"
    using assms p by (auto simp: Paginator_init_def Let_def)
  have beyond: "items p = [] \<and> \<not> has_next p" if gt: "total_pages p < pg"
  proof -
    have "0 \<le> total_pages p"
      unfolding tp using assms by (simp add: total_pages_nonneg)
    then have pg1: "1 \<le> pg" using gt by simp
    have "total_pages p \<le> pg - 1" using gt by simp
    then have "total_pages p * sz \<le> (pg - 1) * sz"
      using assms by (simp add: mult_right_mono)
    moreover have "?n \<le> total_pages p * sz"
      unfolding tp using total_pages_bounds [OF assms, of ?n] by simp
    ultimately have "?n \<le> (pg - 1) * sz" by linarith
    then have "items p = []"
      using items_Paginator_init [OF pg1 assms p] by simp
    moreover have "\<not> has_next p" using gt pgp by (simp add: has_next_def)
    ultimately show ?thesis by simp
  qed
  show ?thesis using p beyond by blast
qed

theorem Paginator_beyond_last_page_witness:
  "(1::int) \<le> 3 \<and>
   (\<exists>p. Paginator_init [1, 2, 3, 4, 5, 6, 7, 8, 9, 10 :: nat] 5 3 = Inr p \<and>
        total_pages p < 5 \<and> items p = [] \<and> \<not> has_next p)"
proof -
  have h: "(1::int) \<le> 3" by simp
  have tp: "\<And>p. Paginator_init [1, 2, 3, 4, 5, 6, 7, 8, 9, 10 :: nat] 5 3 = Inr p
              \<Longrightarrow> total_pages p = 4"
    by (auto simp: Paginator_init_def Let_def)
  show ?thesis
    using Paginator_beyond_last_page [OF h, of "[1, 2, 3, 4, 5, 6, 7, 8, 9, 10 :: nat]" 5] tp
    by auto
qed

text \<open>
  Claim C7, as stated, says for every integer \<open>page\<close> that \<open>has_prev\<close> is false if and
  only if \<open>page = 1\<close>. It fails at page 0, which the constructor accepts: \<open>has_prev\<close> is
  false there and the page is not 1.
\<close>

theorem Paginator_has_prev_page_zero_counterexample:
  "Paginator_init [5::nat] 0 1 =
     Inr \<lparr>all_items = [5], page = 0, page_size = 1, total = 1, total_pages = 1, items = []\<rparr> \<and>
   \<not> has_prev \<lparr>all_items = [5::nat], page = 0, page_size = 1, total = 1, total_pages = 1,
     items = []\<rparr> \<and>
   (0::int) \<noteq> 1"
  by (simp add: Paginator_init_def Let_def has_prev_def py_slice_def py_adjust_index_def)

text \<open>
  Claim C7, amended. For every list, every integer \<open>page\<close> and every \<open>page_size \<ge> 1\<close>:
  \<open>has_prev\<close> is false if and only if \<open>page \<le> 1\<close> (for \<open>page \<ge> 1\<close>: if and only if
  \<open>page = 1\<close>), and \<open>has_next\<close> is false if and only if \<open>page \<ge> total_pages\<close>.
\<close>

theorem Paginator_has_prev_has_next_iff:
  assumes "1 \<le> sz"
  shows "\<exists>p. Paginator_init xs pg sz = Inr p \<and>
           (\<not> has_prev p \<longleftrightarrow> pg \<le> 1) \<and> (\<not> has_next p \<longleftrightarrow> total_pages p \<le> pg)"
  using assms by (auto simp: Paginator_init_def Let_def has_next_def has_prev_def)

theorem Paginator_has_prev_has_next_iff_witness:
  "(1::int) \<le> 3 \<and>
   (\<exists>p. Paginator_init [1, 2, 3, 4, 5, 6, 7, 8, 9, 10 :: nat] 2 3 = Inr p \<and>
        has_prev p \<and> has_next p \<and> total_pages p = 4)"
proof -
  have h: "(1::int) \<le> 3" by simp
  have tp: "\<And>p. Paginator_init [1, 2, 3, 4, 5, 6, 7, 8, 9, 10 :: nat] 2 3 = Inr p
              \<Longrightarrow> total_pages p = 4"
    by (auto simp: Paginator_init_def Let_def)
  show ?thesis
    using Paginator_has_prev_has_next_iff [OF h, of "[1, 2, 3, 4, 5, 6, 7, 8, 9, 10 :: nat]" 2] tp
    by auto
qed

text \<open>
  Claim C9. For every list and every \<open>page_size \<ge> 1\<close>, every page can be constructed, and
  the \<open>items\<close> of the pages 1, 2, ..., \<open>total_pages\<close>, concatenated in this order, are the
  input list.
\<close>

theorem Paginator_pages_concat:
  assumes "1 \<le> sz"
  shows "(\<forall>pg. \<exists>p. Paginator_init xs pg sz = Inr p) \<and>
         concat (map (\<lambda>pg. items (projr (Paginator_init xs pg sz)))
                     [1..total_pages (projr (Paginator_init xs 1 sz))]) = xs"
proof -
  let ?n = "int (length xs)"
  let ?tp = "(?n + sz - 1) div sz"
  have nz: "sz \<noteq> 0" using assms by simp
  have ok: "\<forall>pg. \<exists>p. Paginator_init xs pg sz = Inr p"
    using nz by (simp add: Paginator_init_def Let_def)
  have tp: "total_pages (projr (Paginator_init xs 1 sz)) = ?tp"
    using nz by (simp add: Paginator_init_def Let_def)
  have it: "\<And>pg. items (projr (Paginator_init xs pg sz))
              = py_slice xs ((pg - 1) * sz) ((pg - 1) * sz + sz)"
    using nz by (simp add: Paginator_init_def Let_def)
  have tp0: "0 \<le> ?tp" using assms by (simp add: total_pages_nonneg)
  have "?n \<le> ?tp * sz" using total_pages_bounds [OF assms, of ?n] by simp
  then have "?n \<le> int (nat ?tp * nat sz)" using tp0 assms by simp
  then have le: "length xs \<le> nat ?tp * nat sz" by linarith
  have "concat (map (\<lambda>pg. py_slice xs ((pg - 1) * sz) ((pg - 1) * sz + sz)) [1..int (nat ?tp)])
          = take (nat ?tp * nat sz) xs"
    using assms by (rule concat_pages_take)
  then have "concat (map (\<lambda>pg. py_slice xs ((pg - 1) * sz) ((pg - 1) * sz + sz)) [1..?tp]) = xs"
    using tp0 le by simp
  then show ?thesis using ok by (simp add: tp it)
qed

theorem Paginator_pages_concat_witness:
  "(1::int) \<le> 3 \<and>
   concat (map (\<lambda>pg. items (projr (Paginator_init [1, 2, 3, 4, 5, 6, 7, 8, 9, 10 :: nat] pg 3)))
               [1..total_pages (projr (Paginator_init [1, 2, 3, 4, 5, 6, 7, 8, 9, 10 :: nat] 1 3))])
     = [1, 2, 3, 4, 5, 6, 7, 8, 9, 10]"
proof -
  have h: "(1::int) \<le> 3" by simp
  show ?thesis
    using Paginator_pages_concat [OF h, of "[1, 2, 3, 4, 5, 6, 7, 8, 9, 10 :: nat]"] by simp
qed

text \<open>
  Claim C10. For every list and every \<open>page_size \<ge> 1\<close>, constructing the Paginator with
  page 0 succeeds with \<open>items\<close> empty: the slice runs from \<open>- page_size\<close> to 0.
\<close>

theorem Paginator_page_zero_empty:
  assumes "1 \<le> sz"
  shows "\<exists>p. Paginator_init xs 0 sz = Inr p \<and> items p = []"
  using assms by (simp add: Paginator_init_def Let_def py_slice_def py_adjust_index_def)

theorem Paginator_page_zero_empty_witness:
  "(1::int) \<le> 3 \<and>
   (\<exists>p. Paginator_init [1, 2, 3, 4, 5, 6, 7, 8, 9, 10 :: nat] 0 3 = Inr p \<and> items p = [])"
proof -
  have h: "(1::int) \<le> 3" by simp
  show ?thesis
    using Paginator_page_zero_empty [OF h, of "[1, 2, 3, 4, 5, 6, 7, 8, 9, 10 :: nat]"] by simp
qed

subsection \<open>Claims about random strings and API keys\<close>

lemma alphabet_alnum: "c \<in> set (ascii_letters @ digits) \<Longrightarrow> is_ascii_alnum c"
  by (auto simp: ascii_letters_def digits_def is_ascii_alnum_def)

lemma secrets_choice_ok:
  assumes "alphabet \<noteq> []"
  shows "\<exists>c g'. secrets_choice alphabet g = Inr (c, g') \<and> c \<in> set alphabet"
  using assms by (simp add: secrets_choice_def randbelow_def)

lemma join_choices_ok:
  assumes "alphabet \<noteq> []"
  shows "\<exists>s g'. join_choices alphabet n g = Inr (s, g') \<and> length s = n \<and> set s \<subseteq> set alphabet"
proof (induction n arbitrary: g)
  case 0
  show ?case by simp
next
  case (Suc n)
  obtain c g1 where c: "secrets_choice alphabet g = Inr (c, g1)" "c \<in> set alphabet"
    using secrets_choice_ok [OF assms] by blast
  obtain s g2 where s: "join_choices alphabet n g1 = Inr (s, g2)" "length s = n"
      "set s \<subseteq> set alphabet"
    using Suc.IH by blast
  show ?case using c s by simp
qed

lemma generate_random_string_ok:
  "\<exists>s g'. generate_random_string len g = Inr (s, g') \<and> length s = nat len \<and>
     list_all is_ascii_alnum s"
proof -
  have ne: "ascii_letters @ digits \<noteq> []" by (simp add: digits_def)
  obtain s g' where s: "join_choices (ascii_letters @ digits) (nat len) g = Inr (s, g')"
      "length s = nat len" "set s \<subseteq> set (ascii_letters @ digits)"
    using join_choices_ok [OF ne] by blast
  have "list_all is_ascii_alnum s"
    unfolding list_all_iff using s(3) alphabet_alnum by blast
  then show ?thesis using s by (simp add: generate_random_string_def)
qed

text \<open>
  Claim C8. For every state of the random source, \<open>generate_api_key\<close> returns the prefix
  \<open>aimpk_\<close> followed by exactly 64 characters, each an ASCII letter or digit; and for
  every \<open>length \<ge> 0\<close>, \<open>generate_random_string(length)\<close> returns exactly \<open>length\<close>
  characters, each an ASCII letter or digit.
\<close>

theorem generate_api_key_format:
  "(\<exists>r g'. generate_api_key g = Inr (''aimpk_'' @ r, g') \<and> length r = 64 \<and>
       list_all is_ascii_alnum r) \<and>
   (0 \<le> len \<longrightarrow>
     (\<exists>s g'. generate_random_string len g = Inr (s, g') \<and> int (length s) = len \<and>
       list_all is_ascii_alnum s))"
proof -
  obtain r g' where r: "generate_random_string 64 g = Inr (r, g')" "length r = nat 64"
      "list_all is_ascii_alnum r"
    using generate_random_string_ok [of 64 g] by blast
  have api: "\<exists>r g'. generate_api_key g = Inr (''aimpk_'' @ r, g') \<and> length r = 64 \<and>
       list_all is_ascii_alnum r"
    using r by (simp add: generate_api_key_def)
  obtain s g'' where s: "generate_random_string len g = Inr (s, g'')" "length s = nat len"
      "list_all is_ascii_alnum s"
    using generate_random_string_ok [of len g] by blast
  have "0 \<le> len \<longrightarrow>
     (\<exists>s g'. generate_random_string len g = Inr (s, g') \<and> int (length s) = len \<and>
       list_all is_ascii_alnum s)"
    using s by auto
  with api show ?thesis by blast
qed

theorem generate_api_key_format_witness:
  "(0::int) \<le> 5 \<and>
   (\<exists>r g'. generate_api_key (\<lambda>i. 7 * i + 3) = Inr (''aimpk_'' @ r, g') \<and> length r = 64 \<and>
       list_all is_ascii_alnum r) \<and>
   (\<exists>s g'. generate_random_string 5 (\<lambda>i. 7 * i + 3) = Inr (s, g') \<and> int (length s) = 5 \<and>
       list_all is_ascii_alnum s)"
  using generate_api_key_format [of "\<lambda>i. 7 * i + 3" 5] by simp

subsection \<open>Claims about expiry times\<close>

text \<open>
  When \<open>days\<close> is a non-zero integer it decides the result, whatever \<open>hours\<close> is; when
  neither argument is passed the offset is 30 days. Both hold as long as the library can
  represent the offset and the resulting instant.
\<close>

lemma get_expiry_time_days:
  assumes "d \<noteq> 0" and "\<bar>d\<bar> \<le> MAX_DELTA_DAYS" and "0 \<le> now + d * US_PER_DAY"
    and "now + d * US_PER_DAY < MAXORDINAL * US_PER_DAY"
  shows "get_expiry_time now (Some d) hours = Inr (now + d * US_PER_DAY)"
  using assms
  by (simp add: get_expiry_time_def timedelta_def datetime_add_def Let_def US_PER_DAY_def)

lemma get_expiry_time_default:
  assumes "0 \<le> now + 30 * US_PER_DAY"
    and "now + 30 * US_PER_DAY < MAXORDINAL * US_PER_DAY"
  shows "get_expiry_time now None None = Inr (now + 30 * US_PER_DAY)"
  using assms
  by (simp add: get_expiry_time_def timedelta_def datetime_add_def Let_def US_PER_DAY_def MAX_DELTA_DAYS_def)


text \<open>
  Claim C3 says that \<open>days\<close>, whenever it is supplied, wins over \<open>hours\<close>, for every
  integer value of \<open>days\<close>. The code tests \<open>days\<close> for truth, so a supplied \<open>days = 0\<close>
  counts as not supplied: at 2024-01-01T00:00:00 (63839664000000000 microseconds),
  \<open>get_expiry_time(days=0, hours=5)\<close> is five hours later, not the current instant, and
  \<open>get_expiry_time(days=0)\<close> is thirty days later.
\<close>

theorem get_expiry_time_zero_days_falls_through:
  "get_expiry_time 63839664000000000 (Some 0) (Some 5)
     = Inr (63839664000000000 + 5 * US_PER_HOUR) \<and>
   get_expiry_time 63839664000000000 (Some 0) None
     = Inr (63839664000000000 + 30 * US_PER_DAY) \<and>
   get_expiry_time 63839664000000000 (Some 0) (Some 5)
     \<noteq> Inr (63839664000000000 + 0 * US_PER_DAY)"
  by (simp add: get_expiry_time_def timedelta_def datetime_add_def US_PER_HOUR_def US_PER_DAY_def
      MAX_DELTA_DAYS_def MAXORDINAL_def Let_def)

end
